theory Spec2Isabelle
  imports Main
begin

section \<open>JavaScript values\<close>

text \<open>
  The \<open>map\<close> command of \<open>src/commands/stdlib/map.ts\<close> works on pipeline items of
  type \<open>any\<close>. The model carries the values a pipeline item can be: \<open>undefined\<close>,
  \<open>null\<close>, booleans, numbers, strings, arrays, plain objects and functions (a function
  is what a built-in method such as \<open>toString\<close> is when a path names it).

  \<^item> A string is a list of UTF-16 code units; the model has the code units below 256.
  \<^item> A number \<open>JNum i\<close> is an integer. In the safe range, \<open>\<bar>i\<bar> < 2^53\<close>, a double holds
    it exactly and JavaScript prints it as a decimal numeral; the text of a larger one is
    left to the runtime (a larger integer that no double holds stands for no JavaScript
    value). Fractions, \<open>NaN\<close> and the infinities are not modelled.
  \<^item> An object is an ordinary, extensible object: the list of its own enumerable data
    properties in enumeration order, every key at most once. An array has no holes and
    no extra named properties.
  \<^item> A function is opaque but for its name.
\<close>

datatype jsval =
    JUndefined
  | JNull
  | JBool bool
  | JNum int
  | JStr string
  | JArr "jsval list"
  | JObj "(string \<times> jsval) list"
  | JFun string

datatype error = TypeError | Error string

text \<open>
  What the runtime does when a property is read that is not an own data property of the
  value: it looks along the prototype chain (\<open>Object.prototype.toString\<close>,
  \<open>Array.prototype.map\<close>, ...) and at the own properties of function objects. The read
  gives the member, \<open>JUndefined\<close> when there is none, or it throws: an inherited
  accessor can (\<open>caller\<close> and \<open>arguments\<close> of a built-in function throw a
  \<open>TypeError\<close>). The table belongs to the JavaScript engine, not to the repository, so
  the model takes it as a parameter, \<open>inherited\<close>. The second parameter is the text
  the engine prints for an integer outside the safe range (\<open>1e+21\<close> for \<open>10^21\<close>).
\<close>

record host =
  inherited :: "jsval \<Rightarrow> string \<Rightarrow> error + jsval"
  big_number_text :: "int \<Rightarrow> string"

subsection \<open>Strings\<close>

text \<open>
  The white space of the regular expression class \<open>\s\<close> and of \<open>String.prototype.trim\<close>
  (the two sets are the same): TAB, LF, VT, FF, CR, SP and NBSP among the code units
  below 256.
\<close>

definition is_space :: "char \<Rightarrow> bool" where
  "is_space c = (of_char c \<in> {9, 10, 11, 12, 13, 32, 160 :: nat})"

definition trim :: "string \<Rightarrow> string" where
  "trim s = rev (dropWhile is_space (rev (dropWhile is_space s)))"

text \<open>\<open>s.split(sep)\<close> for a one-character separator: always at least one piece.\<close>

fun split :: "char \<Rightarrow> string \<Rightarrow> string list" where
  "split sep [] = [[]]"
| "split sep (c # cs) =
     (if c = sep then [] # split sep cs
      else (case split sep cs of
              [] \<Rightarrow> [[c]]
            | p # ps \<Rightarrow> (c # p) # ps))"

definition is_digit :: "char \<Rightarrow> bool" where
  "is_digit c = (48 \<le> (of_char c :: nat) \<and> (of_char c :: nat) \<le> 57)"

definition digit_val :: "char \<Rightarrow> nat" where
  "digit_val c = of_char c - 48"

definition digits_val :: "string \<Rightarrow> nat" where
  "digits_val s = foldl (\<lambda>n c. 10 * n + digit_val c) 0 s"

text \<open>
  A property key is an array index when it is the canonical decimal numeral of a natural
  number: digits only, no leading zero except for \<open>"0"\<close> itself.
\<close>

definition parse_index :: "string \<Rightarrow> nat option" where
  "parse_index s =
     (if s \<noteq> [] \<and> list_all is_digit s \<and> (s = ''0'' \<or> hd s \<noteq> CHR ''0'')
      then Some (digits_val s) else None)"

subsection \<open>Property access\<close>

text \<open>The own properties of a value that \<open>v[p]\<close> finds before it asks the prototypes.\<close>

fun own_prop :: "jsval \<Rightarrow> string \<Rightarrow> jsval option" where
  "own_prop (JObj kvs) p = map_of kvs p"
| "own_prop (JArr xs) p =
     (case parse_index p of
        Some i \<Rightarrow> if i < length xs then Some (xs ! i) else None
      | None \<Rightarrow> if p = ''length'' then Some (JNum (int (length xs))) else None)"
| "own_prop (JStr s) p =
     (case parse_index p of
        Some i \<Rightarrow> if i < length s then Some (JStr [s ! i]) else None
      | None \<Rightarrow> if p = ''length'' then Some (JNum (int (length s))) else None)"
| "own_prop v p = None"

text \<open>
  \<open>v[p]\<close>: a \<open>TypeError\<close> on \<open>undefined\<close> and \<open>null\<close>, otherwise the own property, or
  what the runtime does for a property that is not an own one, which may throw.
\<close>

fun js_get :: "host \<Rightarrow> jsval \<Rightarrow> string \<Rightarrow> error + jsval" where
  "js_get h JUndefined p = Inl TypeError"
| "js_get h JNull p = Inl TypeError"
| "js_get h v p = (case own_prop v p of Some x \<Rightarrow> Inr x | None \<Rightarrow> inherited h v p)"

subsection \<open>\<open>JSON.stringify\<close>\<close>

fun nat_digits :: "nat \<Rightarrow> string" where
  "nat_digits n =
     (if n < 10 then [char_of (48 + n)]
      else nat_digits (n div 10) @ [char_of (48 + n mod 10)])"

definition int_text :: "int \<Rightarrow> string" where
  "int_text i = (if i < 0 then CHR ''-'' # nat_digits (nat (- i)) else nat_digits (nat i))"

text \<open>
  The text of a number: the decimal numeral in the safe range, and what the runtime
  prints outside it.
\<close>

definition number_text :: "host \<Rightarrow> int \<Rightarrow> string" where
  "number_text h i =
     (if - 9007199254740992 < i \<and> i < 9007199254740992 then int_text i
      else big_number_text h i)"

definition hex_digit :: "nat \<Rightarrow> char" where
  "hex_digit n = (if n < 10 then char_of (48 + n) else char_of (87 + n))"

text \<open>\<open>QuoteJSONString\<close>: the escapes of one code unit.\<close>

definition json_escape :: "char \<Rightarrow> string" where
  "json_escape c =
     (let n = (of_char c :: nat) in
      if n = 34 then [CHR 0x5C, CHR 0x22]
      else if n = 92 then [CHR 0x5C, CHR 0x5C]
      else if n = 8 then [CHR 0x5C, CHR ''b'']
      else if n = 9 then [CHR 0x5C, CHR ''t'']
      else if n = 10 then [CHR 0x5C, CHR ''n'']
      else if n = 12 then [CHR 0x5C, CHR ''f'']
      else if n = 13 then [CHR 0x5C, CHR ''r'']
      else if n < 32 then [CHR 0x5C, CHR ''u'', CHR ''0'', CHR ''0'', hex_digit (n div 16), hex_digit (n mod 16)]
      else [c])"

definition json_quote :: "string \<Rightarrow> string" where
  "json_quote s = CHR 0x22 # concat (map json_escape s) @ [CHR 0x22]"

fun join :: "string \<Rightarrow> string list \<Rightarrow> string" where
  "join sep [] = []"
| "join sep [x] = x"
| "join sep (x # y # ys) = x @ sep @ join sep (y # ys)"

text \<open>
  \<open>JSON.stringify(v)\<close> with no indent: \<open>None\<close> stands for the result \<open>undefined\<close>
  (of \<open>undefined\<close> and of a function). Inside an array such an element is written
  \<open>null\<close>; inside an object such a property is left out.
\<close>

definition json_element :: "string option \<Rightarrow> string" where
  "json_element t = (case t of None \<Rightarrow> ''null'' | Some s \<Rightarrow> s)"

definition json_member :: "string \<times> string option \<Rightarrow> string list" where
  "json_member kt = (case snd kt of None \<Rightarrow> [] | Some s \<Rightarrow> [json_quote (fst kt) @ '':'' @ s])"

primrec JSON_stringify :: "host \<Rightarrow> jsval \<Rightarrow> string option" where
  "JSON_stringify h JUndefined = None"
| "JSON_stringify h JNull = Some ''null''"
| "JSON_stringify h (JBool b) = Some (if b then ''true'' else ''false'')"
| "JSON_stringify h (JNum i) = Some (number_text h i)"
| "JSON_stringify h (JStr s) = Some (json_quote s)"
| "JSON_stringify h (JArr xs) =
     Some (''['' @ join '','' (map json_element (map (JSON_stringify h) xs)) @ '']'')"
| "JSON_stringify h (JObj kvs) =
     Some (''{'' @ join '','' (concat (map json_member (map (map_prod id (JSON_stringify h)) kvs))) @ ''}'')"
| "JSON_stringify h (JFun f) = None"

section \<open>\<open>getByPath\<close> and \<open>renderTemplate\<close>\<close>

text \<open>\<open>cur == null\<close>: loose equality holds for \<open>null\<close> and \<open>undefined\<close> only.\<close>

definition is_nullish :: "jsval \<Rightarrow> bool" where
  "is_nullish v = (v = JUndefined \<or> v = JNull)"

text \<open>\<open>path.split('.').filter(Boolean)\<close>: the non-empty segments.\<close>

definition path_parts :: "string \<Rightarrow> string list" where
  "path_parts path = filter (\<lambda>p. p \<noteq> []) (split CHR ''.'' path)"

text \<open>The \<open>for (const p of parts)\<close> loop of \<open>getByPath\<close>, \<open>cur\<close> as the accumulator.\<close>

fun walk :: "host \<Rightarrow> string list \<Rightarrow> jsval \<Rightarrow> error + jsval" where
  "walk h [] cur = Inr cur"
| "walk h (p # ps) cur =
     (if is_nullish cur then Inr JUndefined
      else (case js_get h cur p of
              Inl e \<Rightarrow> Inl e
            | Inr v \<Rightarrow> walk h ps v))"

definition getByPath :: "host \<Rightarrow> jsval \<Rightarrow> string \<Rightarrow> error + jsval" where
  "getByPath h obj path =
     (if path = ''.'' \<or> path = ''this'' then Inr obj
      else walk h (path_parts path) obj)"

text \<open>
  The regular expression \<open>/\{\{\s*([^}]+?)\s*\}\}/g\<close>. Between \<open>{{\<close> and \<open>}}\<close> it
  accepts characters other than \<open>}\<close> only (white space is among them), at least one, so
  a match at a position covers \<open>{{\<close>, the whole run \<open>w\<close> of characters up to the next
  \<open>}\<close>, and \<open>}}\<close>. Group 1 is found by backtracking: the first \<open>\s*\<close> is greedy and
  takes the leading white space of \<open>w\<close>, but leaves the group one character when \<open>w\<close> is
  white space only; the group is lazy and stops as soon as only white space follows.
\<close>

definition capture :: "string \<Rightarrow> string" where
  "capture w =
     (let t = dropWhile is_space w in
      if t = [] then [last w] else rev (dropWhile is_space (rev t)))"

text \<open>A match starting at the head of \<open>s\<close>: group 1 and the text after the match.\<close>

definition match_here :: "string \<Rightarrow> (string \<times> string) option" where
  "match_here s =
     (case s of
        a # b # t \<Rightarrow>
          if a = CHR 0x7B \<and> b = CHR 0x7B then
            (let w = takeWhile (\<lambda>c. c \<noteq> CHR 0x7D) t;
                 r = dropWhile (\<lambda>c. c \<noteq> CHR 0x7D) t
             in if w \<noteq> [] \<and> take 2 r = [CHR 0x7D, CHR 0x7D]
                then Some (capture w, drop 2 r) else None)
          else None
      | _ \<Rightarrow> None)"

lemma match_here_shorter:
  "match_here s = Some (e, r) \<Longrightarrow> length r < length s"
proof -
  assume m: "match_here s = Some (e, r)"
  then obtain a b t where s: "s = a # b # t"
    by (cases s rule: list.exhaust; simp add: match_here_def split: list.splits)
  from m s have "r = drop 2 (dropWhile (\<lambda>c. c \<noteq> CHR 0x7D) t)"
    by (auto simp: match_here_def Let_def split: if_splits)
  moreover have "length (dropWhile (\<lambda>c. c \<noteq> CHR 0x7D) t) \<le> length t"
    by (rule length_dropWhile_le)
  ultimately show ?thesis using s by simp
qed

text \<open>
  \<open>tpl.replace(re, callback)\<close> with the global flag: the text is scanned from the left,
  every match is replaced by what the callback returns for its group 1, and the scan goes
  on after the match; the replacement itself is not scanned again. A callback that throws
  aborts the call.
\<close>

function replace_all :: "(string \<Rightarrow> error + string) \<Rightarrow> string \<Rightarrow> error + string" where
  "replace_all f [] = Inr []"
| "replace_all f (c # cs) =
     (case match_here (c # cs) of
        Some (e, rest) \<Rightarrow>
          (case f e of
             Inl err \<Rightarrow> Inl err
           | Inr t \<Rightarrow>
               (case replace_all f rest of
                  Inl err \<Rightarrow> Inl err
                | Inr u \<Rightarrow> Inr (t @ u)))
      | None \<Rightarrow>
          (case replace_all f cs of
             Inl err \<Rightarrow> Inl err
           | Inr u \<Rightarrow> Inr (c # u)))"
  by pat_completeness auto
termination
  by (relation "measure (\<lambda>(f, s). length s)") (auto dest: match_here_shorter)

text \<open>
  The callback of \<open>renderTemplate\<close>. \<open>JSON.stringify\<close> returns \<open>undefined\<close> for a
  function, and \<open>replace\<close> converts what the callback returns to a string, so such a value
  is rendered as the text \<open>undefined\<close>.
\<close>

definition render_value :: "host \<Rightarrow> jsval \<Rightarrow> string" where
  "render_value h val =
     (if val = JUndefined \<or> val = JNull then []
      else (case val of
              JStr s \<Rightarrow> s
            | _ \<Rightarrow> (case JSON_stringify h val of
                      Some t \<Rightarrow> t
                    | None \<Rightarrow> ''undefined'')))"

definition render_expr :: "host \<Rightarrow> jsval \<Rightarrow> string \<Rightarrow> error + string" where
  "render_expr h ctx expr =
     (let key = trim expr in
      case getByPath h ctx key of
        Inl e \<Rightarrow> Inl e
      | Inr val \<Rightarrow> Inr (render_value h val))"

definition renderTemplate :: "host \<Rightarrow> string \<Rightarrow> jsval \<Rightarrow> error + string" where
  "renderTemplate h tpl ctx = replace_all (render_expr h ctx) tpl"

section \<open>The \<open>map\<close> command\<close>

subsection \<open>\<open>parseAssignments\<close>\<close>

text \<open>\<open>s.indexOf(c)\<close>, with \<open>None\<close> for \<open>-1\<close>.\<close>

fun indexOf :: "char \<Rightarrow> string \<Rightarrow> nat option" where
  "indexOf c [] = None"
| "indexOf c (x # xs) =
     (if x = c then Some 0
      else (case indexOf c xs of None \<Rightarrow> None | Some i \<Rightarrow> Some (Suc i)))"

text \<open>
  The tokens are the positional arguments \<open>args._\<close>, strings by the command's
  \<open>argsSchema\<close>, so \<open>String(tok)\<close> is the token itself.
\<close>

fun parseAssignments :: "string list \<Rightarrow> (string \<times> string) list" where
  "parseAssignments [] = []"
| "parseAssignments (tok # tokens) =
     (case indexOf CHR ''='' tok of
        None \<Rightarrow> parseAssignments tokens
      | Some idx \<Rightarrow>
          (let key = trim (take idx tok);
               val = drop (idx + 1) tok
           in if key = [] then parseAssignments tokens
              else (key, val) # parseAssignments tokens))"

subsection \<open>Tests on values\<close>

definition truthy :: "jsval \<Rightarrow> bool" where
  "truthy v =
     (case v of
        JUndefined \<Rightarrow> False
      | JNull \<Rightarrow> False
      | JBool b \<Rightarrow> b
      | JNum i \<Rightarrow> i \<noteq> 0
      | JStr s \<Rightarrow> s \<noteq> []
      | _ \<Rightarrow> True)"

definition typeof :: "jsval \<Rightarrow> string" where
  "typeof v =
     (case v of
        JUndefined \<Rightarrow> ''undefined''
      | JNull \<Rightarrow> ''object''
      | JBool b \<Rightarrow> ''boolean''
      | JNum i \<Rightarrow> ''number''
      | JStr s \<Rightarrow> ''string''
      | JArr xs \<Rightarrow> ''object''
      | JObj kvs \<Rightarrow> ''object''
      | JFun f \<Rightarrow> ''function'')"

definition isArray :: "jsval \<Rightarrow> bool" where
  "isArray v = (case v of JArr xs \<Rightarrow> True | _ \<Rightarrow> False)"

subsection \<open>Objects in the store\<close>

text \<open>
  \<open>let cur = item\<close> makes \<open>cur\<close> and \<open>item\<close> two names of one object, and
  \<open>cur[key] = ...\<close> changes that object. The model keeps the values in a store and lets a
  variable hold an address: copying a variable copies the address, an object literal takes
  a fresh address, and an assignment to a property writes the cell \<open>cur\<close> points to.
  The values below the top level of a cell are never written by this command, so a cell
  holds them as a tree.
\<close>

type_synonym addr = nat

record frame =
  store :: "addr \<Rightarrow> jsval"
  cur :: addr
  fresh :: addr

text \<open>\<open>cur = { ... }\<close>: a new object, and \<open>cur\<close> points to it.\<close>

definition new_object :: "frame \<Rightarrow> jsval \<Rightarrow> frame" where
  "new_object st v =
     st\<lparr>store := (store st)(fresh st := v), cur := fresh st, fresh := Suc (fresh st)\<rparr>"

text \<open>
  The keys an ordinary object lists first, in ascending order: the array indices
  (canonical numerals up to \<open>2^32 - 2\<close>).
\<close>

definition array_index :: "string \<Rightarrow> nat option" where
  "array_index k =
     (case parse_index k of
        Some i \<Rightarrow> if int i < 4294967295 then Some i else None
      | None \<Rightarrow> None)"

fun insert_index :: "nat \<Rightarrow> string \<Rightarrow> jsval \<Rightarrow> (string \<times> jsval) list \<Rightarrow> (string \<times> jsval) list" where
  "insert_index i k v [] = [(k, v)]"
| "insert_index i k v ((k', x) # kvs) =
     (case array_index k' of
        Some j \<Rightarrow> if j < i then (k', x) # insert_index i k v kvs else (k, v) # (k', x) # kvs
      | None \<Rightarrow> (k, v) # (k', x) # kvs)"

text \<open>
  \<open>obj[k] = v\<close> on a plain object, \<open>v\<close> a string: an own property is overwritten where
  it stands; a new property is created at its place in the enumeration order (an array
  index among the indices, any other key at the end); and \<open>__proto__\<close>, when it is not an
  own property, is the inherited accessor, whose setter ignores a string.
\<close>

definition set_prop :: "(string \<times> jsval) list \<Rightarrow> string \<Rightarrow> jsval \<Rightarrow> (string \<times> jsval) list" where
  "set_prop kvs k v =
     (if map_of kvs k \<noteq> None then map (\<lambda>(k', x). if k' = k then (k', v) else (k', x)) kvs
      else if k = ''__proto__'' then kvs
      else (case array_index k of
              Some i \<Rightarrow> insert_index i k v kvs
            | None \<Rightarrow> kvs @ [(k, v)]))"

text \<open>
  \<open>cur[key] = v\<close>. The source assigns only after it has made \<open>cur\<close> a plain object;
  the model marks every other case with \<open>TypeError\<close>, and \<open>item_body_error\<close> below
  shows that it is not reached: an error of the loop body is one a property read threw.
\<close>

definition put_field :: "frame \<Rightarrow> string \<Rightarrow> jsval \<Rightarrow> error + frame" where
  "put_field st k v =
     (case store st (cur st) of
        JObj kvs \<Rightarrow> Inr (st\<lparr>store := (store st)(cur st := JObj (set_prop kvs k v))\<rparr>)
      | _ \<Rightarrow> Inl TypeError)"

subsection \<open>\<open>run\<close>\<close>

text \<open>
  \<open>for (const { key, value } of assignments) cur[key] = renderTemplate(String(value), item)\<close>:
  \<open>item\<close> is the address of the input item, read at every turn of the loop.
\<close>

fun assign_all :: "host \<Rightarrow> addr \<Rightarrow> (string \<times> string) list \<Rightarrow> frame \<Rightarrow> error + frame" where
  "assign_all h item [] st = Inr st"
| "assign_all h item ((key, val) # assignments) st =
     (case renderTemplate h val (store st item) of
        Inl e \<Rightarrow> Inl e
      | Inr text \<Rightarrow>
          (case put_field st key (JStr text) of
             Inl e \<Rightarrow> Inl e
           | Inr st' \<Rightarrow> assign_all h item assignments st'))"

text \<open>
  \<open>wrap\<close> and \<open>unwrap\<close> are \<open>string | undefined\<close> (\<open>None\<close> for \<open>undefined\<close>); the source
  tests them for truthiness, which a string passes when it is not empty.
\<close>

definition given :: "string option \<Rightarrow> bool" where
  "given a = (case a of None \<Rightarrow> False | Some s \<Rightarrow> s \<noteq> [])"

definition name_of :: "string option \<Rightarrow> string" where
  "name_of a = (case a of None \<Rightarrow> [] | Some s \<Rightarrow> s)"

text \<open>
  The body of the \<open>for await\<close> loop for one item: \<open>cur st0\<close> is the address of the item.
  The result is the value yielded and the store at that moment.
\<close>

definition item_body ::
  "host \<Rightarrow> string option \<Rightarrow> string option \<Rightarrow> (string \<times> string) list \<Rightarrow> frame \<Rightarrow> error + (jsval \<times> frame)" where
  "item_body h wrap unwrap assignments st0 =
     (let item = cur st0 in
      if given unwrap then
        (let c = store st0 (cur st0) in
         if truthy c \<and> typeof c = ''object''
         then (case js_get h c (name_of unwrap) of
                 Inl e \<Rightarrow> Inl e
               | Inr v \<Rightarrow> Inr (v, st0))
         else Inr (JUndefined, st0))
      else
        (let st1 = (if given wrap
                    then new_object st0 (JObj [(name_of wrap, store st0 (cur st0))])
                    else st0)
         in if assignments \<noteq> [] then
              (let c = store st1 (cur st1);
                   st2 = (if c = JNull \<or> typeof c \<noteq> ''object'' \<or> isArray c
                          then new_object st1 (JObj [(''value'', c)])
                          else st1)
               in case assign_all h item assignments st2 of
                    Inl e \<Rightarrow> Inl e
                  | Inr st3 \<Rightarrow> Inr (store st3 (cur st3), st3))
            else Inr (store st1 (cur st1), st1)))"

text \<open>
  One input item in a store of its own, at address 0. The items of one input are taken to
  be distinct objects: an input that yields the same object twice, where the write into
  the first would show in the second, is not represented.
\<close>

definition item_frame :: "jsval \<Rightarrow> frame" where
  "item_frame v = \<lparr>store = (\<lambda>a. JUndefined)(0 := v), cur = 0, fresh = 1\<rparr>"

text \<open>
  What the consumer of the output sees for one item: the value yielded, and the input item
  as the loop body leaves it.
\<close>

definition map_item ::
  "host \<Rightarrow> string option \<Rightarrow> string option \<Rightarrow> (string \<times> string) list \<Rightarrow> jsval \<Rightarrow> error + (jsval \<times> jsval)" where
  "map_item h wrap unwrap assignments v =
     (case item_body h wrap unwrap assignments (item_frame v) of
        Inl e \<Rightarrow> Inl e
      | Inr (out, st) \<Rightarrow> Inr (out, store st 0))"

text \<open>
  The generator \<open>output\<close> of the source (\<open>output\<close> is a keyword here, hence the name), drained to its end. The input is the sequence of results of
  pulling the upstream iterator: \<open>Inr item\<close>, or \<open>Inl e\<close> when the upstream throws, which
  ends the loop with that error (an input that cannot be iterated is one whose first pull
  throws).
\<close>

fun output_of ::
  "host \<Rightarrow> string option \<Rightarrow> string option \<Rightarrow> (string \<times> string) list \<Rightarrow> (error + jsval) list \<Rightarrow> error + jsval list" where
  "output_of h wrap unwrap assignments [] = Inr []"
| "output_of h wrap unwrap assignments (Inl e # input) = Inl e"
| "output_of h wrap unwrap assignments (Inr item # input) =
     (case map_item h wrap unwrap assignments item of
        Inl e \<Rightarrow> Inl e
      | Inr (out, item') \<Rightarrow>
          (case output_of h wrap unwrap assignments input of
             Inl e \<Rightarrow> Inl e
           | Inr outs \<Rightarrow> Inr (out # outs)))"

text \<open>
  The arguments of \<open>run\<close>: \<open>args.wrap\<close> and \<open>args.unwrap\<close> can be any value
  (\<open>JUndefined\<close> when the option is absent), \<open>args._\<close> is \<open>None\<close> when it is not an array.
\<close>

record map_args =
  arg_wrap :: jsval
  arg_unwrap :: jsval
  arg_rest :: "string list option"

text \<open>\<open>typeof x === 'string' ? x : undefined\<close>\<close>

definition string_arg :: "jsval \<Rightarrow> string option" where
  "string_arg v = (case v of JStr s \<Rightarrow> Some s | _ \<Rightarrow> None)"

definition run :: "host \<Rightarrow> map_args \<Rightarrow> (error + jsval) list \<Rightarrow> error + jsval list" where
  "run h args input =
     (let wrap = string_arg (arg_wrap args);
          unwrap = string_arg (arg_unwrap args);
          assignments = parseAssignments (case arg_rest args of Some ts \<Rightarrow> ts | None \<Rightarrow> [])
      in if given wrap \<and> given unwrap
         then Inl (Error ''map cannot use both --wrap and --unwrap'')
         else output_of h wrap unwrap assignments input)"

text \<open>
  An excerpt of the built-in members, for concrete runs only (the properties below hold
  for every runtime \<open>h\<close>): every value inherits \<open>constructor\<close> and the methods of
  \<open>Object.prototype\<close>; a function object has its \<open>name\<close>, and reading its \<open>caller\<close> or
  \<open>arguments\<close> throws a \<open>TypeError\<close> (the accessors of \<open>Function.prototype\<close>, which a
  built-in function inherits). The engine has many more members (the methods of strings
  and arrays, \<open>__proto__\<close>, the \<open>length\<close> of a function); the excerpt reads them as
  \<open>undefined\<close> and is not to be used at such keys, nor at numbers outside the safe range.
\<close>

definition constructor_name :: "jsval \<Rightarrow> string" where
  "constructor_name v =
     (case v of
        JBool b \<Rightarrow> ''Boolean''
      | JNum i \<Rightarrow> ''Number''
      | JStr s \<Rightarrow> ''String''
      | JArr xs \<Rightarrow> ''Array''
      | JFun f \<Rightarrow> ''Function''
      | _ \<Rightarrow> ''Object'')"

definition is_function :: "jsval \<Rightarrow> bool" where
  "is_function v = (case v of JFun f \<Rightarrow> True | _ \<Rightarrow> False)"

definition object_members :: "jsval \<Rightarrow> string \<Rightarrow> error + jsval" where
  "object_members v p =
     (if is_function v \<and> (p = ''caller'' \<or> p = ''arguments'') then Inl TypeError
      else if p = ''constructor'' then Inr (JFun (constructor_name v))
      else if p \<in> set [''toString'', ''toLocaleString'', ''valueOf'',
                        ''hasOwnProperty'', ''isPrototypeOf'', ''propertyIsEnumerable'']
      then Inr (JFun p)
      else (case v of
              JFun f \<Rightarrow> if p = ''name'' then Inr (JStr f) else Inr JUndefined
            | _ \<Rightarrow> Inr JUndefined))"

definition object_prototype :: host where
  "object_prototype = \<lparr>inherited = object_members, big_number_text = int_text\<rparr>"

section \<open>Templates as the specification describes them\<close>

text \<open>
  A template read as a sequence of pieces: literal text, and placeholder references
  \<open>{{w}}\<close>. The literal text of a piece holds no \<open>{{\<close> and does not end in \<open>{\<close>, so
  that no match of the regular expression starts inside it; the text \<open>w\<close> of a reference
  is not empty and holds no \<open>}\<close>.
\<close>

datatype piece = Lit string | Hole string

fun lit_ok :: "string \<Rightarrow> bool" where
  "lit_ok [] = True"
| "lit_ok [c] = (c \<noteq> CHR 0x7B)"
| "lit_ok (c # d # r) = ((c \<noteq> CHR 0x7B \<or> d \<noteq> CHR 0x7B) \<and> lit_ok (d # r))"

fun piece_ok :: "piece \<Rightarrow> bool" where
  "piece_ok (Lit s) = lit_ok s"
| "piece_ok (Hole w) = (w \<noteq> [] \<and> CHR 0x7D \<notin> set w)"

fun piece_text :: "piece \<Rightarrow> string" where
  "piece_text (Lit s) = s"
| "piece_text (Hole w) = [CHR 0x7B, CHR 0x7B] @ w @ [CHR 0x7D, CHR 0x7D]"

definition template_of :: "piece list \<Rightarrow> string" where
  "template_of ps = concat (map piece_text ps)"

text \<open>
  The pieces of an arbitrary template, as the regular expression finds them: scanning from
  the left, a match is a reference (with the run of characters between its braces), and a
  character at which no match starts is literal text.
\<close>

function pieces_of :: "string \<Rightarrow> piece list" where
  "pieces_of [] = []"
| "pieces_of (c # cs) =
     (case match_here (c # cs) of
        Some (e, rest) \<Rightarrow> Hole (takeWhile (\<lambda>x. x \<noteq> CHR 0x7D) (drop 1 cs)) # pieces_of rest
      | None \<Rightarrow> Lit [c] # pieces_of cs)"
  by pat_completeness auto
termination
  by (relation "measure length") (auto dest: match_here_shorter)

text \<open>
  The path of a reference: its text without the surrounding white space, cut at the dots;
  \<open>.\<close> and \<open>this\<close> name the scope itself.
\<close>

definition segments :: "string \<Rightarrow> string list" where
  "segments w =
     (let key = trim w in
      if key = ''.'' \<or> key = ''this'' then [] else path_parts key)"

text \<open>
  Reading the property \<open>p\<close> of a value that is neither \<open>null\<close> nor \<open>undefined\<close>: an
  own property of the data, or what the runtime does for any other key.
\<close>

definition property :: "host \<Rightarrow> jsval \<Rightarrow> string \<Rightarrow> error + jsval" where
  "property h v p = (case own_prop v p of Some x \<Rightarrow> Inr x | None \<Rightarrow> inherited h v p)"

text \<open>
  The value a path resolves to: \<open>undefined\<close> once the path leaves the data, and the error
  of a property read that throws on the way.
\<close>

fun resolve :: "host \<Rightarrow> jsval \<Rightarrow> string list \<Rightarrow> error + jsval" where
  "resolve h v [] = Inr v"
| "resolve h v (p # ps) =
     (if v = JUndefined \<or> v = JNull then Inr JUndefined
      else (case property h v p of
              Inl e \<Rightarrow> Inl e
            | Inr x \<Rightarrow> resolve h x ps))"

text \<open>
  A path that cannot be fully resolved: the reads go through up to a segment where the
  key is missing (neither an own property nor a member the runtime has), or up to a
  \<open>null\<close> (or \<open>undefined\<close>) that lies along the path, its end included.
\<close>

fun unresolved :: "host \<Rightarrow> jsval \<Rightarrow> string list \<Rightarrow> bool" where
  "unresolved h v [] = (v = JUndefined \<or> v = JNull)"
| "unresolved h v (p # ps) =
     (v = JUndefined \<or> v = JNull \<or> (own_prop v p = None \<and> inherited h v p = Inr JUndefined)
      \<or> (case property h v p of
            Inl e \<Rightarrow> False
          | Inr x \<Rightarrow> unresolved h x ps))"

text \<open>The values \<open>JSON.stringify\<close> has a text for, strings apart.\<close>

definition is_json_data :: "jsval \<Rightarrow> bool" where
  "is_json_data v =
     (case v of
        JBool b \<Rightarrow> True
      | JNum i \<Rightarrow> True
      | JArr xs \<Rightarrow> True
      | JObj kvs \<Rightarrow> True
      | _ \<Rightarrow> False)"

text \<open>
  What a piece of the template becomes: literal text stays, a reference becomes the
  textual form of the value its path resolves to, or fails with the error of the read.
\<close>

fun fill :: "host \<Rightarrow> jsval \<Rightarrow> piece \<Rightarrow> error + string" where
  "fill h ctx (Lit s) = Inr s"
| "fill h ctx (Hole w) =
     (case resolve h ctx (segments w) of
        Inl e \<Rightarrow> Inl e
      | Inr v \<Rightarrow> Inr (render_value h v))"

text \<open>The pieces filled from left to right and put together; the first error ends it.\<close>

fun fill_all :: "host \<Rightarrow> jsval \<Rightarrow> piece list \<Rightarrow> error + string" where
  "fill_all h ctx [] = Inr []"
| "fill_all h ctx (p # ps) =
     (case fill h ctx p of
        Inl e \<Rightarrow> Inl e
      | Inr t \<Rightarrow>
          (case fill_all h ctx ps of
             Inl e \<Rightarrow> Inl e
           | Inr u \<Rightarrow> Inr (t @ u)))"

text \<open>An error that some property read of the runtime throws.\<close>

definition host_throws :: "host \<Rightarrow> error \<Rightarrow> bool" where
  "host_throws h e = (\<exists>v p. inherited h v p = Inl e)"

subsection \<open>What the assignments build\<close>

text \<open>
  Assignments attached to an object \<open>kvs\<close> that is not the input item, every value
  rendered against the item \<open>orig\<close> as it came in.
\<close>

fun attach :: "host \<Rightarrow> jsval \<Rightarrow> (string \<times> jsval) list \<Rightarrow> (string \<times> string) list \<Rightarrow> error + (string \<times> jsval) list" where
  "attach h orig kvs [] = Inr kvs"
| "attach h orig kvs ((key, val) # assignments) =
     (case renderTemplate h val orig of
        Inl e \<Rightarrow> Inl e
      | Inr t \<Rightarrow> attach h orig (set_prop kvs key (JStr t)) assignments)"

text \<open>
  Assignments written into the input item itself: every value is rendered against the
  item as the earlier assignments have left it.
\<close>

fun attach_in_place :: "host \<Rightarrow> (string \<times> jsval) list \<Rightarrow> (string \<times> string) list \<Rightarrow> error + (string \<times> jsval) list" where
  "attach_in_place h kvs [] = Inr kvs"
| "attach_in_place h kvs ((key, val) # assignments) =
     (case renderTemplate h val (JObj kvs) of
        Inl e \<Rightarrow> Inl e
      | Inr t \<Rightarrow> attach_in_place h (set_prop kvs key (JStr t)) assignments)"

section \<open>Workflow files: load-time validation\<close>

text \<open>
  Modelled from the spec: the workflow definition, its load-time validation and the gate
  in front of the runner. The code (\<open>runWorkflowFile\<close> in \<open>src/workflows/file\<close>) is not
  among the sources, only its tests are; the definitions below follow sections 3, 4.3,
  4.5, 7 and 9 of the specification, and the two message texts are the ones the tests in
  \<open>test/map.test.ts\<close> match.
\<close>

record step_spec =
  step_id :: string
  step_command :: "string option"
  step_prompt :: "string option"
  step_system :: "string option"
  step_stdin :: "string option"
  step_env :: "(string \<times> string) list"

record workflow =
  wf_name :: string
  wf_steps :: "step_spec list"
  wf_args :: "(string \<times> string) list"
  wf_env :: "(string \<times> string) list"
  wf_cwd :: "string option"

text \<open>A violation names the offending step by its id.\<close>

datatype violation =
    BothCommandAndPrompt string
  | NeitherCommandNorPrompt string
  | DuplicateId string

fun violation_message :: "violation \<Rightarrow> string" where
  "violation_message (BothCommandAndPrompt i) =
     ''Workflow step '' @ i @ '' cannot have both command and prompt''"
| "violation_message (NeitherCommandNorPrompt i) =
     ''Workflow step '' @ i @ '' requires a command or prompt''"
| "violation_message (DuplicateId i) =
     ''Duplicate workflow step id: '' @ i"

text \<open>The shape check of one step: exactly one of command and prompt.\<close>

definition shape_violations :: "step_spec \<Rightarrow> violation list" where
  "shape_violations s =
     (if step_command s \<noteq> None \<and> step_prompt s \<noteq> None then [BothCommandAndPrompt (step_id s)]
      else if step_command s = None \<and> step_prompt s = None then [NeitherCommandNorPrompt (step_id s)]
      else [])"

text \<open>The ids that occur again later in the list.\<close>

fun duplicate_ids :: "string list \<Rightarrow> string list" where
  "duplicate_ids [] = []"
| "duplicate_ids (i # ids) = (if i \<in> set ids then [i] else []) @ duplicate_ids ids"

text \<open>
  Modelled from the spec: validation as a pure pass that returns the violations (section
  9); none means valid. The code is not among the sources.
\<close>

definition validate :: "workflow \<Rightarrow> violation list" where
  "validate flow =
     concat (map shape_violations (wf_steps flow))
     @ map DuplicateId (duplicate_ids (map step_id (wf_steps flow)))"

text \<open>
  Modelled from the spec: the runner behind the gate (section 4.5); its code is not among
  the sources. The step executor of section 4.3 is a parameter: it tells
  whether a step completes, halts for a completion of the host, or fails. The runner takes
  the steps one at a time in declaration order and records the ids of the steps it
  started; it stops at the first step that does not complete.
\<close>

datatype step_outcome = Completed | Halted | StepFailed

datatype failure = ValidationError "violation list" | ExecutionError string

datatype status = Ok | NeedsLlm string | Fatal failure

record run_report =
  run_status :: status
  started :: "string list"

fun run_steps :: "(step_spec \<Rightarrow> step_outcome) \<Rightarrow> step_spec list \<Rightarrow> run_report" where
  "run_steps exec [] = \<lparr>run_status = Ok, started = []\<rparr>"
| "run_steps exec (s # steps) =
     (case exec s of
        Completed \<Rightarrow>
          (let r = run_steps exec steps in r\<lparr>started := step_id s # started r\<rparr>)
      | Halted \<Rightarrow> \<lparr>run_status = NeedsLlm (step_id s), started = [step_id s]\<rparr>
      | StepFailed \<Rightarrow> \<lparr>run_status = Fatal (ExecutionError (step_id s)), started = [step_id s]\<rparr>)"

definition run_workflow :: "(step_spec \<Rightarrow> step_outcome) \<Rightarrow> workflow \<Rightarrow> run_report" where
  "run_workflow exec flow =
     (case validate flow of
        [] \<Rightarrow> run_steps exec (wf_steps flow)
      | v # vs \<Rightarrow> \<lparr>run_status = Fatal (ValidationError (v # vs)), started = []\<rparr>)"

text \<open>A step with exactly one of command and prompt.\<close>

definition well_shaped :: "step_spec \<Rightarrow> bool" where
  "well_shaped s = ((step_command s = None) \<noteq> (step_prompt s = None))"

text \<open>The workflows of the validation tests, and one with a repeated id.\<close>

definition step :: "string \<Rightarrow> string option \<Rightarrow> string option \<Rightarrow> step_spec" where
  "step i c p =
     \<lparr>step_id = i, step_command = c, step_prompt = p, step_system = None,
      step_stdin = None, step_env = []\<rparr>"

definition flow_of :: "string \<Rightarrow> step_spec list \<Rightarrow> workflow" where
  "flow_of n steps = \<lparr>wf_name = n, wf_steps = steps, wf_args = [], wf_env = [], wf_cwd = None\<rparr>"

definition valid_prompt :: workflow where
  "valid_prompt = flow_of ''valid-prompt'' [step ''ask'' None (Some ''Hello?'')]"

definition invalid_both :: workflow where
  "invalid_both = flow_of ''invalid'' [step ''bad'' (Some ''echo hi'') (Some ''also this'')]"

definition invalid_neither :: workflow where
  "invalid_neither = flow_of ''invalid'' [step ''empty'' None None]"

definition invalid_twice :: workflow where
  "invalid_twice =
     flow_of ''twice'' [step ''a'' (Some ''echo 1'') None, step ''a'' None (Some ''Again?'')]"

section \<open>Properties\<close>

subsection \<open>An error of the command is one a property read threw\<close>

lemma js_get_error: "\<not> is_nullish c \<Longrightarrow> js_get h c p = Inl e \<Longrightarrow> host_throws h e"
  by (cases c) (auto simp: is_nullish_def host_throws_def split: option.splits)

lemma walk_error: "walk h ps c = Inl e \<Longrightarrow> host_throws h e"
proof (induction ps arbitrary: c)
  case Nil
  then show ?case by simp
next
  case (Cons p ps)
  show ?case
  proof (cases "is_nullish c")
    case True
    with Cons.prems show ?thesis by simp
  next
    case False
    show ?thesis
    proof (cases "js_get h c p")
      case (Inl e')
      with False Cons.prems have "e' = e" by simp
      with Inl False show ?thesis by (auto dest: js_get_error)
    next
      case (Inr v)
      with False Cons.prems have "walk h ps v = Inl e" by simp
      then show ?thesis by (rule Cons.IH)
    qed
  qed
qed

lemma render_expr_error: "render_expr h ctx expr = Inl e \<Longrightarrow> host_throws h e"
  by (auto simp: render_expr_def getByPath_def Let_def split: if_splits sum.splits
           dest: walk_error)

lemma replace_all_error:
  "(\<And>x e. f x = Inl e \<Longrightarrow> P e) \<Longrightarrow> replace_all f s = Inl e \<Longrightarrow> P e"
proof (induction f s rule: replace_all.induct)
  case (1 f)
  then show ?case by simp
next
  case (2 f c cs)
  show ?case
  proof (cases "match_here (c # cs)")
    case None
    with "2.prems"(2) have "replace_all f cs = Inl e" by (simp split: sum.splits)
    from "2.IH"(1) [OF None "2.prems"(1) this] show ?thesis .
  next
    case (Some m)
    obtain x rest where m: "m = (x, rest)" by (cases m)
    show ?thesis
    proof (cases "f x")
      case (Inl e')
      with Some m "2.prems"(2) have "e' = e" by simp
      with Inl "2.prems"(1) show ?thesis by blast
    next
      case (Inr t)
      with Some m "2.prems"(2) have "replace_all f rest = Inl e" by (simp split: sum.splits)
      from "2.IH"(2) [OF Some [unfolded m] refl Inr "2.prems"(1) this] show ?thesis .
    qed
  qed
qed

lemma renderTemplate_error: "renderTemplate h tpl ctx = Inl e \<Longrightarrow> host_throws h e"
  unfolding renderTemplate_def
  by (rule replace_all_error [where f = "render_expr h ctx" and s = tpl])
     (auto dest: render_expr_error)

lemma put_field_object:
  "store st (cur st) = JObj kvs \<Longrightarrow>
   put_field st k v = Inr (st\<lparr>store := (store st)(cur st := JObj (set_prop kvs k v))\<rparr>)"
  by (simp add: put_field_def)

lemma assign_all_error:
  "store st (cur st) = JObj kvs \<Longrightarrow> assign_all h item assignments st = Inl e \<Longrightarrow>
   host_throws h e"
proof (induction assignments arbitrary: st kvs)
  case Nil
  then show ?case by simp
next
  case (Cons a assignments)
  obtain key val where a: "a = (key, val)" by (cases a)
  show ?case
  proof (cases "renderTemplate h val (store st item)")
    case (Inl e')
    with a Cons.prems(2) have "e' = e" by simp
    with Inl show ?thesis by (auto dest: renderTemplate_error)
  next
    case (Inr s)
    let ?st = "st\<lparr>store := (store st)(cur st := JObj (set_prop kvs key (JStr s)))\<rparr>"
    have p: "put_field st key (JStr s) = Inr ?st"
      using Cons.prems(1) by (rule put_field_object)
    have o: "store ?st (cur ?st) = JObj (set_prop kvs key (JStr s))" by simp
    from a Inr p Cons.prems(2) have "assign_all h item assignments ?st = Inl e" by simp
    from Cons.IH [OF o this] show ?thesis .
  qed
qed

lemma item_body_error:
  assumes "item_body h wrap unwrap assignments st0 = Inl e"
  shows "host_throws h e"
proof (cases "given unwrap")
  case True
  show ?thesis
  proof (cases "truthy (store st0 (cur st0)) \<and> typeof (store st0 (cur st0)) = ''object''")
    case False
    with True assms show ?thesis by (auto simp: item_body_def Let_def)
  next
    case t: True
    then have n: "\<not> is_nullish (store st0 (cur st0))"
      by (auto simp: is_nullish_def truthy_def)
    from True t assms have "js_get h (store st0 (cur st0)) (name_of unwrap) = Inl e"
      by (simp add: item_body_def Let_def split: sum.splits)
    with n show ?thesis by (rule js_get_error)
  qed
next
  case False
  define st1 where "st1 = (if given wrap
                    then new_object st0 (JObj [(name_of wrap, store st0 (cur st0))])
                    else st0)"
  show ?thesis
  proof (cases "assignments = []")
    case True
    with False assms show ?thesis by (simp add: item_body_def Let_def)
  next
    case ne: False
    define c where "c = store st1 (cur st1)"
    define st2 where "st2 = (if c = JNull \<or> typeof c \<noteq> ''object'' \<or> isArray c
                          then new_object st1 (JObj [(''value'', c)])
                          else st1)"
    have "\<exists>kvs. store st2 (cur st2) = JObj kvs"
    proof (cases "c = JNull \<or> typeof c \<noteq> ''object'' \<or> isArray c")
      case True
      then show ?thesis by (simp add: st2_def new_object_def)
    next
      case False
      then obtain kvs where "c = JObj kvs"
        by (cases c) (simp_all add: typeof_def isArray_def)
      with False show ?thesis by (simp add: st2_def c_def)
    qed
    then obtain kvs where o: "store st2 (cur st2) = JObj kvs" by blast
    have "item_body h wrap unwrap assignments st0 =
        (case assign_all h (cur st0) assignments st2 of
           Inl e \<Rightarrow> Inl e
         | Inr st3 \<Rightarrow> Inr (store st3 (cur st3), st3))"
      using False ne unfolding item_body_def Let_def st2_def c_def st1_def by simp
    with assms have "assign_all h (cur st0) assignments st2 = Inl e"
      by (simp split: sum.splits)
    with o show ?thesis by (rule assign_all_error)
  qed
qed

lemma map_item_error: "map_item h wrap unwrap assignments v = Inl e \<Longrightarrow> host_throws h e"
  by (auto simp: map_item_def split: sum.splits dest: item_body_error)

lemma output_of_error:
  "output_of h wrap unwrap assignments input = Inl e \<Longrightarrow>
   Inl e \<in> set input \<or> host_throws h e"
proof (induction input)
  case Nil
  then show ?case by simp
next
  case (Cons x input)
  show ?case
  proof (cases x)
    case (Inl e')
    with Cons.prems show ?thesis by simp
  next
    case (Inr item)
    show ?thesis
    proof (cases "map_item h wrap unwrap assignments item")
      case (Inl e')
      with Inr Cons.prems have "e' = e" by simp
      with Inl show ?thesis by (auto dest: map_item_error)
    next
      case r: (Inr res)
      obtain out item' where "res = (out, item')" by (cases res)
      with r Inr Cons.prems have "output_of h wrap unwrap assignments input = Inl e"
        by (simp split: sum.splits)
      with Cons.IH show ?thesis by auto
    qed
  qed
qed

subsection \<open>The scanner against the pieces of a template\<close>

lemma js_get_property: "\<not> is_nullish v \<Longrightarrow> js_get h v p = property h v p"
  by (cases v) (simp_all add: is_nullish_def property_def)

lemma walk_resolve: "walk h ps v = resolve h v ps"
proof (induction ps arbitrary: v)
  case Nil
  show ?case by simp
next
  case (Cons p ps)
  show ?case
  proof (cases "is_nullish v")
    case True
    then show ?thesis by (auto simp: is_nullish_def)
  next
    case False
    then have "js_get h v p = property h v p" by (rule js_get_property)
    with False Cons.IH show ?thesis
      by (simp add: is_nullish_def split: sum.splits)
  qed
qed

lemma resolve_nullish:
  "v = JUndefined \<or> v = JNull \<Longrightarrow>
   resolve h v ps = Inr JUndefined \<or> resolve h v ps = Inr JNull"
  by (cases ps) auto

lemma unresolved_nullish:
  "unresolved h v ps \<Longrightarrow> resolve h v ps = Inr JUndefined \<or> resolve h v ps = Inr JNull"
proof (induction ps arbitrary: v)
  case Nil
  then show ?case by simp
next
  case (Cons p ps)
  show ?case
  proof (cases "v = JUndefined \<or> v = JNull")
    case True
    then show ?thesis by simp
  next
    case False
    show ?thesis
    proof (cases "property h v p")
      case (Inl e)
      with Cons.prems False show ?thesis by (simp add: property_def)
    next
      case (Inr x)
      with False have r: "resolve h v (p # ps) = resolve h x ps" by simp
      from Cons.prems False Inr
      consider "x = JUndefined" | "unresolved h x ps"
        by (auto simp: property_def)
      then show ?thesis
      proof cases
        case 1
        then show ?thesis using r resolve_nullish [of x h ps] by simp
      next
        case 2
        then show ?thesis using r Cons.IH by simp
      qed
    qed
  qed
qed

lemma render_expr_fill: "render_expr h ctx e = fill h ctx (Hole e)"
  by (simp add: render_expr_def getByPath_def segments_def walk_resolve Let_def)

lemma match_here_lit: "lit_ok (c # cs) \<Longrightarrow> match_here (c # cs @ rest) = None"
  by (cases cs; cases rest) (auto simp: match_here_def)

lemma lit_ok_tail: "lit_ok (c # cs) \<Longrightarrow> lit_ok cs"
  by (cases cs) auto

lemma replace_all_lit:
  "lit_ok s \<Longrightarrow>
   replace_all f (s @ rest) =
     (case replace_all f rest of Inl e \<Rightarrow> Inl e | Inr u \<Rightarrow> Inr (s @ u))"
proof (induction s)
  case Nil
  show ?case by (simp split: sum.splits)
next
  case (Cons c cs)
  have "match_here (c # cs @ rest) = None" using Cons.prems by (rule match_here_lit)
  moreover have "lit_ok cs" using Cons.prems by (rule lit_ok_tail)
  ultimately show ?case using Cons.IH by (simp split: sum.splits)
qed

lemma match_here_hole:
  assumes "w \<noteq> []" and "CHR 0x7D \<notin> set w"
  shows "match_here ([CHR 0x7B, CHR 0x7B] @ w @ [CHR 0x7D, CHR 0x7D] @ rest) = Some (capture w, rest)"
proof -
  have t: "takeWhile (\<lambda>c. c \<noteq> CHR 0x7D) (w @ [CHR 0x7D, CHR 0x7D] @ rest) = w"
    using assms(2) by (induction w) auto
  have d: "dropWhile (\<lambda>c. c \<noteq> CHR 0x7D) (w @ [CHR 0x7D, CHR 0x7D] @ rest) = [CHR 0x7D, CHR 0x7D] @ rest"
    using assms(2) by (induction w) auto
  show ?thesis using assms(1) t d by (simp add: match_here_def)
qed

lemma trim_keeps_edges:
  assumes "s \<noteq> []" and "\<not> is_space (hd s)" and "\<not> is_space (last s)"
  shows "trim s = s"
proof -
  have "dropWhile is_space s = s" using assms(1,2) by (cases s) auto
  moreover have "dropWhile is_space (rev s) = rev s"
    using assms(1,3) by (cases "rev s") (auto simp: last_rev [symmetric] simp del: last_rev)
  ultimately show ?thesis by (simp add: trim_def)
qed

lemma trim_idem: "trim (trim w) = trim w"
proof (cases "dropWhile is_space w = []")
  case True
  have e: "trim w = []" unfolding trim_def True by simp
  show ?thesis unfolding e by (simp add: trim_def)
next
  case False
  define t where "t = dropWhile is_space w"
  define u where "u = dropWhile is_space (rev t)"
  have t: "t \<noteq> []" "\<not> is_space (hd t)"
    using False hd_dropWhile [of is_space w] by (simp_all add: t_def)
  then have "rev t = rev (tl t) @ [hd t]" by (cases t) simp_all
  then have "u = dropWhile is_space (rev (tl t)) @ [hd t]"
    using t(2) by (simp add: u_def dropWhile_append3)
  then have u: "u \<noteq> []" "last u = hd t" by simp_all
  have "\<not> is_space (hd u)"
    using u(1) hd_dropWhile [of is_space "rev t"] by (simp add: u_def)
  then have "trim (rev u) = rev u"
    using u t(2) by (intro trim_keeps_edges) (simp_all add: hd_rev last_rev)
  then show ?thesis by (simp add: trim_def t_def u_def)
qed

lemma trim_capture: "w \<noteq> [] \<Longrightarrow> trim (capture w) = trim w"
proof (cases "dropWhile is_space w = []")
  case True
  assume "w \<noteq> []"
  then have "last w \<in> set w" by simp
  moreover from True have "\<forall>c\<in>set w. is_space c" by (simp add: dropWhile_eq_Nil_conv)
  ultimately have "is_space (last w)" by blast
  moreover have "capture w = [last w]" unfolding capture_def Let_def True by simp
  moreover have e: "trim w = []" unfolding trim_def True by simp
  ultimately show ?thesis unfolding e by (simp add: trim_def)
next
  case False
  then have "capture w = trim w" unfolding capture_def trim_def Let_def by (simp only: if_False)
  then show ?thesis by (simp add: trim_idem)
qed

lemma replace_all_hole:
  assumes "w \<noteq> []" and "CHR 0x7D \<notin> set w"
  shows "replace_all (render_expr h ctx) ([CHR 0x7B, CHR 0x7B] @ w @ [CHR 0x7D, CHR 0x7D] @ rest) =
     (case fill h ctx (Hole w) of
        Inl e \<Rightarrow> Inl e
      | Inr t \<Rightarrow>
          (case replace_all (render_expr h ctx) rest of
             Inl e \<Rightarrow> Inl e
           | Inr u \<Rightarrow> Inr (t @ u)))"
proof -
  have m: "match_here (CHR 0x7B # CHR 0x7B # w @ [CHR 0x7D, CHR 0x7D] @ rest) = Some (capture w, rest)"
    using match_here_hole [OF assms] by simp
  have "segments (capture w) = segments w"
    using trim_capture [OF assms(1)] by (simp add: segments_def)
  then have "render_expr h ctx (capture w) = fill h ctx (Hole w)"
    by (simp add: render_expr_fill)
  with m show ?thesis by simp
qed

lemma template_of_simps:
  "template_of [] = []"
  "template_of (p # ps) = piece_text p @ template_of ps"
  by (simp_all add: template_of_def)

lemma render_pieces:
  "list_all piece_ok ps \<Longrightarrow> renderTemplate h (template_of ps) ctx = fill_all h ctx ps"
proof (induction ps)
  case Nil
  show ?case by (simp add: renderTemplate_def template_of_simps)
next
  case (Cons p ps)
  then have ih: "replace_all (render_expr h ctx) (template_of ps) = fill_all h ctx ps"
    by (simp add: renderTemplate_def)
  show ?case
  proof (cases p)
    case (Lit s)
    with Cons.prems have "lit_ok s" by simp
    from replace_all_lit [OF this, of "render_expr h ctx" "template_of ps"]
    have "replace_all (render_expr h ctx) (s @ template_of ps) =
        (case fill_all h ctx ps of Inl e \<Rightarrow> Inl e | Inr u \<Rightarrow> Inr (s @ u))"
      unfolding ih .
    with Lit show ?thesis by (simp add: renderTemplate_def template_of_simps)
  next
    case (Hole w)
    with Cons.prems have "w \<noteq> []" "CHR 0x7D \<notin> set w" by simp_all
    from replace_all_hole [OF this, of h ctx "template_of ps"]
    have "replace_all (render_expr h ctx)
            ([CHR 0x7B, CHR 0x7B] @ w @ [CHR 0x7D, CHR 0x7D] @ template_of ps) =
          fill_all h ctx (Hole w # ps)"
      unfolding ih fill_all.simps .
    with Hole show ?thesis by (simp add: renderTemplate_def template_of_simps)
  qed
qed

lemma match_here_SomeD:
  assumes "match_here s = Some (e, rest)"
  shows "\<exists>w. w \<noteq> [] \<and> CHR 0x7D \<notin> set w \<and> e = capture w
           \<and> s = [CHR 0x7B, CHR 0x7B] @ w @ [CHR 0x7D, CHR 0x7D] @ rest
           \<and> w = takeWhile (\<lambda>x. x \<noteq> CHR 0x7D) (drop 2 s)"
proof -
  from assms obtain a b t where s: "s = a # b # t"
    by (cases s rule: list.exhaust; simp add: match_here_def split: list.splits)
  define w where "w = takeWhile (\<lambda>x. x \<noteq> CHR 0x7D) t"
  define r where "r = dropWhile (\<lambda>x. x \<noteq> CHR 0x7D) t"
  have ab: "a = CHR 0x7B \<and> b = CHR 0x7B"
    using assms s by (simp add: match_here_def split: if_splits)
  then have eq: "match_here s =
      (if w \<noteq> [] \<and> take 2 r = [CHR 0x7D, CHR 0x7D]
       then Some (capture w, drop 2 r) else None)"
    using s by (simp add: match_here_def Let_def w_def r_def)
  have c: "w \<noteq> [] \<and> take 2 r = [CHR 0x7D, CHR 0x7D]"
  proof (rule ccontr)
    assume "\<not> (w \<noteq> [] \<and> take 2 r = [CHR 0x7D, CHR 0x7D])"
    then have "match_here s = None" unfolding eq by (rule if_not_P)
    with assms show False by simp
  qed
  then have "match_here s = Some (capture w, drop 2 r)" unfolding eq by (rule if_P)
  with assms c have w: "w \<noteq> []" and r2: "take 2 r = [CHR 0x7D, CHR 0x7D]"
    and e: "e = capture w" and rest: "rest = drop 2 r"
    by simp_all
  have "r = take 2 r @ drop 2 r" by simp
  with r2 rest have r: "r = [CHR 0x7D, CHR 0x7D] @ rest" by simp
  have "t = w @ r" by (simp add: w_def r_def)
  with r have t: "t = w @ [CHR 0x7D, CHR 0x7D] @ rest" by simp
  have n: "CHR 0x7D \<notin> set w" using set_takeWhileD [of "CHR 0x7D" _ t] by (auto simp: w_def)
  have s': "s = [CHR 0x7B, CHR 0x7B] @ w @ [CHR 0x7D, CHR 0x7D] @ rest"
    using s ab t by simp
  have w': "w = takeWhile (\<lambda>x. x \<noteq> CHR 0x7D) (drop 2 s)"
    unfolding s by (simp add: w_def)
  from w n e s' w' show ?thesis by blast
qed

lemma render_pieces_of:
  "template_of (pieces_of tpl) = tpl \<and>
   renderTemplate h tpl ctx = fill_all h ctx (pieces_of tpl)"
proof (induction tpl rule: pieces_of.induct)
  case 1
  show ?case by (simp add: template_of_simps renderTemplate_def)
next
  case (2 c cs)
  show ?case
  proof (cases "match_here (c # cs)")
    case None
    from "2.IH"(1) [OF None]
    have ih: "template_of (pieces_of cs) = cs"
      "replace_all (render_expr h ctx) cs = fill_all h ctx (pieces_of cs)"
      by (simp_all add: renderTemplate_def)
    have p: "pieces_of (c # cs) = Lit [c] # pieces_of cs" using None by simp
    have "template_of (pieces_of (c # cs)) = c # cs"
      unfolding p using ih(1) by (simp add: template_of_simps)
    moreover have "replace_all (render_expr h ctx) (c # cs) =
        (case fill_all h ctx (pieces_of cs) of Inl e \<Rightarrow> Inl e | Inr u \<Rightarrow> Inr (c # u))"
      using None ih(2) by simp
    then have "renderTemplate h (c # cs) ctx = fill_all h ctx (pieces_of (c # cs))"
      unfolding p renderTemplate_def by (simp split: sum.splits)
    ultimately show ?thesis by blast
  next
    case (Some m)
    obtain e rest where m: "m = (e, rest)" by (cases m)
    from match_here_SomeD [OF Some [unfolded m]]
    obtain w where w: "w \<noteq> []" "CHR 0x7D \<notin> set w"
      and s: "c # cs = [CHR 0x7B, CHR 0x7B] @ w @ [CHR 0x7D, CHR 0x7D] @ rest"
      and w': "w = takeWhile (\<lambda>x. x \<noteq> CHR 0x7D) (drop 2 (c # cs))"
      by blast
    have p: "pieces_of (c # cs) = Hole w # pieces_of rest"
      using Some m w' by simp
    from "2.IH"(2) [OF Some [unfolded m] refl]
    have ih: "template_of (pieces_of rest) = rest"
      "replace_all (render_expr h ctx) rest = fill_all h ctx (pieces_of rest)"
      by (simp_all add: renderTemplate_def)
    have "template_of (pieces_of (c # cs)) = c # cs"
      unfolding p using ih(1) s by (simp add: template_of_simps)
    moreover from replace_all_hole [OF w, of h ctx rest]
    have "replace_all (render_expr h ctx) (c # cs) = fill_all h ctx (Hole w # pieces_of rest)"
      unfolding s ih(2) fill_all.simps .
    then have "renderTemplate h (c # cs) ctx = fill_all h ctx (pieces_of (c # cs))"
      unfolding p renderTemplate_def .
    ultimately show ?thesis by blast
  qed
qed

lemma resolve_error: "resolve h v ps = Inl e \<Longrightarrow> host_throws h e"
  using walk_error [of h ps v e] by (simp add: walk_resolve)

subsection \<open>The three ways the assignments are attached\<close>

text \<open>
  With \<open>--wrap\<close>, and for an item that is not a plain object, the assignments go to a new
  object: the input item stays as it is and every value is rendered against it. For a
  plain object without \<open>--wrap\<close> the assignments are written into the input item.
\<close>

lemma assign_all_fresh:
  "cur st \<noteq> item \<Longrightarrow> store st (cur st) = JObj kvs \<Longrightarrow>
   (case attach h (store st item) kvs assignments of
      Inl e \<Rightarrow> assign_all h item assignments st = Inl e
    | Inr kvs' \<Rightarrow>
        (\<exists>st'. assign_all h item assignments st = Inr st' \<and> cur st' = cur st \<and>
           store st' item = store st item \<and> store st' (cur st') = JObj kvs'))"
proof (induction assignments arbitrary: st kvs)
  case Nil
  then show ?case by simp
next
  case (Cons a assignments)
  obtain key val where a: "a = (key, val)" by (cases a)
  show ?case
  proof (cases "renderTemplate h val (store st item)")
    case (Inl e)
    with a show ?thesis by simp
  next
    case (Inr s)
    let ?st = "st\<lparr>store := (store st)(cur st := JObj (set_prop kvs key (JStr s)))\<rparr>"
    have p: "put_field st key (JStr s) = Inr ?st"
      using Cons.prems(2) by (rule put_field_object)
    have c: "cur ?st \<noteq> item" using Cons.prems(1) by simp
    have o: "store ?st (cur ?st) = JObj (set_prop kvs key (JStr s))" by simp
    have i: "store ?st item = store st item" using Cons.prems(1) by simp
    have "cur ?st = cur st" by simp
    with Cons.IH [OF c o] i a p Inr show ?thesis
      by (simp split: sum.splits)
  qed
qed

lemma map_item_wrap:
  assumes "w \<noteq> []" and "assignments \<noteq> []"
  shows "map_item h (Some w) None assignments v =
     (case attach h v [(w, v)] assignments of
        Inl e \<Rightarrow> Inl e
      | Inr kvs \<Rightarrow> Inr (JObj kvs, v))"
proof -
  let ?st1 = "new_object (item_frame v) (JObj [(w, v)])"
  have c: "cur ?st1 \<noteq> 0" by (simp add: new_object_def item_frame_def)
  have o: "store ?st1 (cur ?st1) = JObj [(w, v)]" by (simp add: new_object_def)
  have i: "store ?st1 0 = v" by (simp add: new_object_def item_frame_def)
  have b: "item_body h (Some w) None assignments (item_frame v) =
      (case assign_all h 0 assignments ?st1 of
         Inl e \<Rightarrow> Inl e
       | Inr st3 \<Rightarrow> Inr (store st3 (cur st3), st3))"
    using assms o
    by (simp add: item_body_def Let_def given_def name_of_def typeof_def isArray_def item_frame_def)
  show ?thesis
  proof (cases "attach h v [(w, v)] assignments")
    case (Inl e)
    with assign_all_fresh [OF c o, of h assignments] i
    have "assign_all h 0 assignments ?st1 = Inl e" by simp
    with b Inl show ?thesis by (simp add: map_item_def)
  next
    case (Inr kvs)
    with assign_all_fresh [OF c o, of h assignments] i
    obtain st' where "assign_all h 0 assignments ?st1 = Inr st'" "store st' 0 = v"
      "store st' (cur st') = JObj kvs"
      by auto
    with b Inr show ?thesis by (simp add: map_item_def)
  qed
qed

lemma map_item_primitive:
  assumes "\<not> (\<exists>kvs. v = JObj kvs)" and "assignments \<noteq> []"
  shows "map_item h None None assignments v =
     (case attach h v [(''value'', v)] assignments of
        Inl e \<Rightarrow> Inl e
      | Inr kvs \<Rightarrow> Inr (JObj kvs, v))"
proof -
  let ?st2 = "new_object (item_frame v) (JObj [(''value'', v)])"
  have g: "v = JNull \<or> typeof v \<noteq> ''object'' \<or> isArray v"
    using assms(1) by (cases v) (simp_all add: typeof_def isArray_def)
  have c: "cur ?st2 \<noteq> 0" by (simp add: new_object_def item_frame_def)
  have o: "store ?st2 (cur ?st2) = JObj [(''value'', v)]" by (simp add: new_object_def)
  have i: "store ?st2 0 = v" by (simp add: new_object_def item_frame_def)
  have b: "item_body h None None assignments (item_frame v) =
      (case assign_all h 0 assignments ?st2 of
         Inl e \<Rightarrow> Inl e
       | Inr st3 \<Rightarrow> Inr (store st3 (cur st3), st3))"
    using assms(2) g
    by (simp add: item_body_def Let_def given_def item_frame_def)
  show ?thesis
  proof (cases "attach h v [(''value'', v)] assignments")
    case (Inl e)
    with assign_all_fresh [OF c o, of h assignments] i
    have "assign_all h 0 assignments ?st2 = Inl e" by simp
    with b Inl show ?thesis by (simp add: map_item_def)
  next
    case (Inr kvs)
    with assign_all_fresh [OF c o, of h assignments] i
    obtain st' where "assign_all h 0 assignments ?st2 = Inr st'" "store st' 0 = v"
      "store st' (cur st') = JObj kvs"
      by auto
    with b Inr show ?thesis by (simp add: map_item_def)
  qed
qed

lemma assign_all_alias:
  "cur st = item \<Longrightarrow> store st item = JObj kvs \<Longrightarrow>
   (case attach_in_place h kvs assignments of
      Inl e \<Rightarrow> assign_all h item assignments st = Inl e
    | Inr kvs' \<Rightarrow>
        (\<exists>st'. assign_all h item assignments st = Inr st' \<and> cur st' = item \<and>
           store st' item = JObj kvs'))"
proof (induction assignments arbitrary: st kvs)
  case Nil
  then show ?case by simp
next
  case (Cons a assignments)
  obtain key val where a: "a = (key, val)" by (cases a)
  show ?case
  proof (cases "renderTemplate h val (JObj kvs)")
    case (Inl e)
    with a Cons.prems(2) show ?thesis by simp
  next
    case (Inr s)
    let ?st = "st\<lparr>store := (store st)(cur st := JObj (set_prop kvs key (JStr s)))\<rparr>"
    have p: "put_field st key (JStr s) = Inr ?st"
      using Cons.prems by (intro put_field_object) simp
    have c: "cur ?st = item" using Cons.prems(1) by simp
    have o: "store ?st item = JObj (set_prop kvs key (JStr s))" using Cons.prems(1) by simp
    from Cons.IH [OF c o] a p Inr Cons.prems(2) show ?thesis
      by (simp split: sum.splits)
  qed
qed

lemma map_item_plain_object:
  assumes "assignments \<noteq> []"
  shows "map_item h None None assignments (JObj kvs) =
     (case attach_in_place h kvs assignments of
        Inl e \<Rightarrow> Inl e
      | Inr kvs' \<Rightarrow> Inr (JObj kvs', JObj kvs'))"
proof -
  have c: "cur (item_frame (JObj kvs)) = 0" by (simp add: item_frame_def)
  have o: "store (item_frame (JObj kvs)) 0 = JObj kvs" by (simp add: item_frame_def)
  have b: "item_body h None None assignments (item_frame (JObj kvs)) =
      (case assign_all h 0 assignments (item_frame (JObj kvs)) of
         Inl e \<Rightarrow> Inl e
       | Inr st3 \<Rightarrow> Inr (store st3 (cur st3), st3))"
    using assms
    by (simp add: item_body_def Let_def given_def item_frame_def typeof_def isArray_def)
  show ?thesis
  proof (cases "attach_in_place h kvs assignments")
    case (Inl e)
    with assign_all_alias [OF c o, of h assignments]
    have "assign_all h 0 assignments (item_frame (JObj kvs)) = Inl e" by simp
    with b Inl show ?thesis by (simp add: map_item_def)
  next
    case (Inr kvs')
    with assign_all_alias [OF c o, of h assignments]
    obtain st' where "assign_all h 0 assignments (item_frame (JObj kvs)) = Inr st'"
      "cur st' = 0" "store st' 0 = JObj kvs'"
      by auto
    with b Inr show ?thesis by (simp add: map_item_def)
  qed
qed

subsection \<open>Validation of a workflow\<close>

lemma duplicate_ids_found:
  "i < j \<Longrightarrow> j < length ids \<Longrightarrow> ids ! i = ids ! j \<Longrightarrow> ids ! i \<in> set (duplicate_ids ids)"
proof (induction ids arbitrary: i j)
  case Nil
  then show ?case by simp
next
  case (Cons x ids)
  show ?case
  proof (cases i)
    case 0
    with Cons.prems obtain j' where j: "j = Suc j'" "j' < length ids" by (cases j) auto
    with 0 Cons.prems have "x = ids ! j'" by simp
    with j have "x \<in> set ids" by simp
    with 0 show ?thesis by simp
  next
    case (Suc i')
    with Cons.prems obtain j' where j: "j = Suc j'" "j' < length ids" "i' < j'" by (cases j) auto
    with Suc Cons.prems have "ids ! i' = ids ! j'" by simp
    from Cons.IH [OF j(3) j(2) this] Suc show ?thesis by simp
  qed
qed

lemma duplicate_ids_distinct: "distinct ids \<Longrightarrow> duplicate_ids ids = []"
  by (induction ids) auto

lemma shape_violations_well_shaped: "well_shaped s \<Longrightarrow> shape_violations s = []"
  by (auto simp: well_shaped_def shape_violations_def)

lemma shape_violations_all:
  "list_all well_shaped steps \<Longrightarrow> concat (map shape_violations steps) = []"
  by (induction steps) (simp_all add: shape_violations_well_shaped)

lemma validate_shape:
  "s \<in> set (wf_steps flow) \<Longrightarrow> v \<in> set (shape_violations s) \<Longrightarrow> v \<in> set (validate flow)"
  by (auto simp: validate_def)

lemma run_workflow_invalid:
  "validate flow \<noteq> [] \<Longrightarrow>
   run_workflow exec flow = \<lparr>run_status = Fatal (ValidationError (validate flow)), started = []\<rparr>"
  by (cases "validate flow") (simp_all add: run_workflow_def)

subsection \<open>The check of \<open>run\<close>\<close>

lemma run_conflict:
  "given (string_arg (arg_wrap args)) \<Longrightarrow> given (string_arg (arg_unwrap args)) \<Longrightarrow>
   run h args input = Inl (Error ''map cannot use both --wrap and --unwrap'')"
  by (simp add: run_def Let_def)

lemma given_string_arg: "given (string_arg v) = (\<exists>s. v = JStr s \<and> s \<noteq> [])"
  by (cases v) (simp_all add: given_def string_arg_def)

lemma run_error:
  "\<not> (given (string_arg (arg_wrap args)) \<and> given (string_arg (arg_unwrap args))) \<Longrightarrow>
   run h args input = Inl e \<Longrightarrow> Inl e \<in> set input \<or> host_throws h e"
  by (auto simp: run_def Let_def dest: output_of_error)

lemma object_prototype_throws: "host_throws object_prototype e \<Longrightarrow> e = TypeError"
  by (auto simp: host_throws_def object_prototype_def object_members_def
           split: if_splits jsval.splits)

subsection \<open>Claims\<close>

text \<open>
  \<^bold>\<open>C3\<close>, on the validation modelled from the specification. Validation reports a step
  that has both a command and a prompt, with a message naming the conflict; a step that
  has neither, with a message naming the omission; and an id that two steps share. When it
  reports anything the run ends with that validation error and no step has been started,
  whatever the steps would do. A step with exactly one of command and prompt passes the
  shape check, and a workflow of such steps with distinct ids passes validation and goes
  on to the runner.
\<close>

theorem validation_rejects_before_execution:
  "(s \<in> set (wf_steps flow) \<and> step_command s \<noteq> None \<and> step_prompt s \<noteq> None \<longrightarrow>
      BothCommandAndPrompt (step_id s) \<in> set (validate flow)
      \<and> (\<exists>pre. violation_message (BothCommandAndPrompt (step_id s)) =
             pre @ ''cannot have both command and prompt''))
   \<and> (s \<in> set (wf_steps flow) \<and> step_command s = None \<and> step_prompt s = None \<longrightarrow>
      NeitherCommandNorPrompt (step_id s) \<in> set (validate flow)
      \<and> (\<exists>pre. violation_message (NeitherCommandNorPrompt (step_id s)) =
             pre @ ''requires a command or prompt''))
   \<and> (i < j \<and> j < length (wf_steps flow) \<and> step_id (wf_steps flow ! i) = step_id (wf_steps flow ! j) \<longrightarrow>
      DuplicateId (step_id (wf_steps flow ! i)) \<in> set (validate flow))
   \<and> (validate flow \<noteq> [] \<longrightarrow>
      run_workflow exec flow = \<lparr>run_status = Fatal (ValidationError (validate flow)), started = []\<rparr>)
   \<and> (well_shaped s \<longrightarrow> shape_violations s = [])
   \<and> (list_all well_shaped (wf_steps flow) \<and> distinct (map step_id (wf_steps flow)) \<longrightarrow>
      validate flow = [] \<and> run_workflow exec flow = run_steps exec (wf_steps flow))"
proof (intro conjI impI)
  assume a: "s \<in> set (wf_steps flow) \<and> step_command s \<noteq> None \<and> step_prompt s \<noteq> None"
  then have "BothCommandAndPrompt (step_id s) \<in> set (shape_violations s)"
    by (simp add: shape_violations_def)
  with a show "BothCommandAndPrompt (step_id s) \<in> set (validate flow)"
    by (blast intro: validate_shape)
next
  show "\<exists>pre. violation_message (BothCommandAndPrompt (step_id s)) =
          pre @ ''cannot have both command and prompt''"
    by (rule exI [of _ "''Workflow step '' @ step_id s @ '' ''"]) simp
next
  assume a: "s \<in> set (wf_steps flow) \<and> step_command s = None \<and> step_prompt s = None"
  then have "NeitherCommandNorPrompt (step_id s) \<in> set (shape_violations s)"
    by (simp add: shape_violations_def)
  with a show "NeitherCommandNorPrompt (step_id s) \<in> set (validate flow)"
    by (blast intro: validate_shape)
next
  show "\<exists>pre. violation_message (NeitherCommandNorPrompt (step_id s)) =
          pre @ ''requires a command or prompt''"
    by (rule exI [of _ "''Workflow step '' @ step_id s @ '' ''"]) simp
next
  assume a: "i < j \<and> j < length (wf_steps flow) \<and> step_id (wf_steps flow ! i) = step_id (wf_steps flow ! j)"
  then have "map step_id (wf_steps flow) ! i \<in> set (duplicate_ids (map step_id (wf_steps flow)))"
    by (intro duplicate_ids_found [of i j]) simp_all
  with a show "DuplicateId (step_id (wf_steps flow ! i)) \<in> set (validate flow)"
    by (simp add: validate_def)
next
  assume "validate flow \<noteq> []"
  then show "run_workflow exec flow = \<lparr>run_status = Fatal (ValidationError (validate flow)), started = []\<rparr>"
    by (rule run_workflow_invalid)
next
  assume "well_shaped s"
  then show "shape_violations s = []" by (rule shape_violations_well_shaped)
next
  assume a: "list_all well_shaped (wf_steps flow) \<and> distinct (map step_id (wf_steps flow))"
  then show v: "validate flow = []"
    by (simp add: validate_def shape_violations_all duplicate_ids_distinct)
  then show "run_workflow exec flow = run_steps exec (wf_steps flow)"
    by (simp add: run_workflow_def)
qed

theorem validation_rejects_before_execution_witness:
  "BothCommandAndPrompt ''bad'' \<in> set (validate invalid_both)
   \<and> run_workflow (\<lambda>s. Completed) invalid_both =
       \<lparr>run_status = Fatal (ValidationError [BothCommandAndPrompt ''bad'']), started = []\<rparr>
   \<and> NeitherCommandNorPrompt ''empty'' \<in> set (validate invalid_neither)
   \<and> DuplicateId ''a'' \<in> set (validate invalid_twice)
   \<and> shape_violations (step ''ask'' None (Some ''Hello?'')) = []
   \<and> validate valid_prompt = []
   \<and> run_workflow (\<lambda>s. Halted) valid_prompt = \<lparr>run_status = NeedsLlm ''ask'', started = [''ask'']\<rparr>"
proof -
  let ?bad = "step ''bad'' (Some ''echo hi'') (Some ''also this'')"
  let ?empty = "step ''empty'' None None"
  let ?ask = "step ''ask'' None (Some ''Hello?'')"
  have both: "?bad \<in> set (wf_steps invalid_both) \<and> step_command ?bad \<noteq> None \<and> step_prompt ?bad \<noteq> None"
    by (simp add: invalid_both_def flow_of_def step_def)
  have neither: "?empty \<in> set (wf_steps invalid_neither) \<and> step_command ?empty = None \<and> step_prompt ?empty = None"
    by (simp add: invalid_neither_def flow_of_def step_def)
  have twice: "(0::nat) < 1 \<and> 1 < length (wf_steps invalid_twice)
      \<and> step_id (wf_steps invalid_twice ! 0) = step_id (wf_steps invalid_twice ! 1)"
    by (simp add: invalid_twice_def flow_of_def step_def)
  have shaped: "well_shaped ?ask" by (simp add: well_shaped_def step_def)
  have valid: "list_all well_shaped (wf_steps valid_prompt) \<and> distinct (map step_id (wf_steps valid_prompt))"
    by (simp add: valid_prompt_def flow_of_def well_shaped_def step_def)
  have vb: "validate invalid_both = [BothCommandAndPrompt ''bad'']"
    by (simp add: validate_def shape_violations_def invalid_both_def flow_of_def step_def)
  from validation_rejects_before_execution
         [where flow = invalid_both and s = ?bad and exec = "\<lambda>s. Completed" and i = 0 and j = 0] both vb
  have 1: "BothCommandAndPrompt ''bad'' \<in> set (validate invalid_both)"
    and 2: "run_workflow (\<lambda>s. Completed) invalid_both =
       \<lparr>run_status = Fatal (ValidationError [BothCommandAndPrompt ''bad'']), started = []\<rparr>"
    by (simp_all add: step_def)
  from validation_rejects_before_execution
         [where flow = invalid_neither and s = ?empty and exec = "\<lambda>s. Completed" and i = 0 and j = 0] neither
  have 3: "NeitherCommandNorPrompt ''empty'' \<in> set (validate invalid_neither)"
    by (simp add: step_def)
  from validation_rejects_before_execution
         [where flow = invalid_twice and s = ?ask and exec = "\<lambda>s. Completed" and i = 0 and j = 1] twice
  have 4: "DuplicateId ''a'' \<in> set (validate invalid_twice)"
    by (simp add: invalid_twice_def flow_of_def step_def)
  from validation_rejects_before_execution
         [where flow = valid_prompt and s = ?ask and exec = "\<lambda>s. Halted" and i = 0 and j = 0] shaped valid
  have 5: "shape_violations ?ask = []" and 6: "validate valid_prompt = []"
    and "run_workflow (\<lambda>s. Halted) valid_prompt = run_steps (\<lambda>s. Halted) (wf_steps valid_prompt)"
    by simp_all
  then have 7: "run_workflow (\<lambda>s. Halted) valid_prompt = \<lparr>run_status = NeedsLlm ''ask'', started = [''ask'']\<rparr>"
    by (simp add: valid_prompt_def flow_of_def step_def)
  from 1 2 3 4 5 6 7 show ?thesis by blast
qed

text \<open>
  \<^bold>\<open>C7\<close>, as amended. For every template and every scope, the template is its
  pieces put together, and \<open>renderTemplate\<close> gives the literal pieces as they are and,
  for every reference, the textual form of the value its path resolves to. In
  particular, in a template written as literal text and references \<open>{{w}}\<close>, every
  reference is replaced. The textual form is the empty string when the path cannot be
  fully resolved (a key at some segment that is neither an own property nor an inherited
  member, or a \<open>null\<close> or \<open>undefined\<close> along the path; \<open>.\<close> and \<open>this\<close> are the scope
  itself), the string itself for a string, and the compact \<open>JSON.stringify\<close> text for a
  boolean, a number, an array or an object. The call fails only with an error that a
  property read of the runtime threw. A path that resolves to a function is left open
  here. The result depends on the template and the scope only (and on the built-in
  members of the runtime, the parameter \<open>h\<close>): the model is a function of these, as the
  source reads and writes nothing else.
\<close>

theorem renderTemplate_replaces_references:
  "template_of (pieces_of tpl) = tpl
   \<and> renderTemplate h tpl ctx = fill_all h ctx (pieces_of tpl)
   \<and> (list_all piece_ok ps \<longrightarrow> renderTemplate h (template_of ps) ctx = fill_all h ctx ps)
   \<and> (unresolved h ctx (segments w) \<longrightarrow> fill h ctx (Hole w) = Inr [])
   \<and> (resolve h ctx (segments w) = Inr (JStr s) \<longrightarrow> fill h ctx (Hole w) = Inr s)
   \<and> (resolve h ctx (segments w) = Inr v \<and> is_json_data v \<longrightarrow>
        (\<exists>t. JSON_stringify h v = Some t \<and> fill h ctx (Hole w) = Inr t))
   \<and> (renderTemplate h tpl ctx = Inl e \<longrightarrow> host_throws h e)"
proof (intro conjI impI)
  show "template_of (pieces_of tpl) = tpl"
    using render_pieces_of [of tpl h ctx] by blast
next
  show "renderTemplate h tpl ctx = fill_all h ctx (pieces_of tpl)"
    using render_pieces_of [of tpl h ctx] by blast
next
  assume "list_all piece_ok ps"
  then show "renderTemplate h (template_of ps) ctx = fill_all h ctx ps"
    by (rule render_pieces)
next
  assume "unresolved h ctx (segments w)"
  then have "resolve h ctx (segments w) = Inr JUndefined \<or> resolve h ctx (segments w) = Inr JNull"
    by (rule unresolved_nullish)
  then show "fill h ctx (Hole w) = Inr []" by (auto simp: render_value_def)
next
  assume "resolve h ctx (segments w) = Inr (JStr s)"
  then show "fill h ctx (Hole w) = Inr s" by (simp add: render_value_def)
next
  assume a: "resolve h ctx (segments w) = Inr v \<and> is_json_data v"
  then have "JSON_stringify h v = Some (render_value h v)"
    by (cases v) (simp_all add: is_json_data_def render_value_def)
  with a show "\<exists>t. JSON_stringify h v = Some t \<and> fill h ctx (Hole w) = Inr t" by simp
next
  assume "renderTemplate h tpl ctx = Inl e"
  then show "host_throws h e" by (rule renderTemplate_error)
qed

theorem renderTemplate_replaces_references_witness:
  "renderTemplate object_prototype
     (template_of [Lit ''{id: '', Hole '' id '', Lit ''} by '', Hole ''user.name'', Hole ''user.age.x''])
     (JObj [(''id'', JNum 123), (''user'', JObj [(''name'', JStr ''bob'')])])
     = Inr ''{id: 123} by bob''
   \<and> fill object_prototype (JObj [(''id'', JNum 123), (''user'', JNull)]) (Hole ''user.name'') = Inr []
   \<and> fill object_prototype (JObj [(''id'', JNum 123), (''user'', JObj [(''name'', JStr ''bob'')])])
       (Hole ''user.name'') = Inr ''bob''
   \<and> (\<exists>t. JSON_stringify object_prototype (JArr [JNum 1, JNum 2]) = Some t
        \<and> fill object_prototype (JObj [(''ids'', JArr [JNum 1, JNum 2])]) (Hole '' ids '') = Inr t)
   \<and> renderTemplate object_prototype ''{{constructor.caller}}'' (JObj []) = Inl TypeError
   \<and> host_throws object_prototype TypeError"
proof -
  let ?ps = "[Lit ''{id: '', Hole '' id '', Lit ''} by '', Hole ''user.name'', Hole ''user.age.x'']"
  let ?ctx = "JObj [(''id'', JNum 123), (''user'', JObj [(''name'', JStr ''bob'')])]"
  let ?nul = "JObj [(''id'', JNum 123), (''user'', JNull)]"
  let ?arr = "JObj [(''ids'', JArr [JNum 1, JNum 2])]"
  have ok: "list_all piece_ok ?ps" by code_simp
  have out: "fill_all object_prototype ?ctx ?ps = Inr ''{id: 123} by bob''" by code_simp
  have un: "unresolved object_prototype ?nul (segments ''user.name'')" by code_simp
  have st: "resolve object_prototype ?ctx (segments ''user.name'') = Inr (JStr ''bob'')" by code_simp
  have ar: "resolve object_prototype ?arr (segments '' ids '') = Inr (JArr [JNum 1, JNum 2])
      \<and> is_json_data (JArr [JNum 1, JNum 2])"
    by code_simp
  have th: "renderTemplate object_prototype ''{{constructor.caller}}'' (JObj []) = Inl TypeError"
    by code_simp
  from renderTemplate_replaces_references [where h = object_prototype and tpl = "[]" and ctx = ?ctx
      and ps = ?ps and w = "''user.name''" and s = "''bob''"] ok out st
  have 1: "renderTemplate object_prototype (template_of ?ps) ?ctx = Inr ''{id: 123} by bob''"
    and 3: "fill object_prototype ?ctx (Hole ''user.name'') = Inr ''bob''"
    by simp_all
  from renderTemplate_replaces_references [where h = object_prototype and tpl = "[]" and ctx = ?nul
      and w = "''user.name''"] un
  have 2: "fill object_prototype ?nul (Hole ''user.name'') = Inr []" by blast
  from renderTemplate_replaces_references [where h = object_prototype and tpl = "[]" and ctx = ?arr
      and w = "'' ids ''" and v = "JArr [JNum 1, JNum 2]"] ar
  have 4: "\<exists>t. JSON_stringify object_prototype (JArr [JNum 1, JNum 2]) = Some t
      \<and> fill object_prototype ?arr (Hole '' ids '') = Inr t"
    by blast
  from renderTemplate_replaces_references [where h = object_prototype
      and tpl = "''{{constructor.caller}}''" and ctx = "JObj []" and e = TypeError] th
  have 5: "host_throws object_prototype TypeError" by blast
  from 1 2 3 4 th 5 show ?thesis by blast
qed

text \<open>
  The claim as stated fails for a path that names an inherited member. The object \<open>{}\<close>
  has no key \<open>constructor\<close>, yet \<open>{{constructor.name}}\<close> renders \<open>Object\<close>, not the
  empty string: property access finds inherited members too. For the same reason
  \<open>{{constructor.caller}}\<close> does not render at all: reading \<open>caller\<close> of the built-in
  \<open>Object\<close> throws a \<open>TypeError\<close>, and the call fails. And \<open>{}\<close> has no key
  \<open>toString\<close>; the path resolves to the function \<open>Object.prototype.toString\<close>, for which
  \<open>JSON.stringify\<close> has no text, and the reference is rendered as the text \<open>undefined\<close>:
  neither the empty string nor a serialization. Last, the array \<open>[1]\<close> has no key
  \<open>this\<close>, but \<open>this\<close> (like \<open>.\<close>) is the name of the scope itself, and \<open>{{this}}\<close>
  renders the whole scope.
\<close>

theorem renderTemplate_inherited_counterexample:
  "own_prop (JObj []) ''constructor'' = None
   \<and> renderTemplate object_prototype ''{{constructor.name}}'' (JObj []) = Inr ''Object''
   \<and> renderTemplate object_prototype ''{{constructor.caller}}'' (JObj []) = Inl TypeError
   \<and> own_prop (JObj []) ''toString'' = None
   \<and> JSON_stringify object_prototype (JFun ''toString'') = None
   \<and> renderTemplate object_prototype ''{{toString}}'' (JObj []) = Inr ''undefined''
   \<and> own_prop (JArr [JNum 1]) ''this'' = None
   \<and> renderTemplate object_prototype ''{{this}}'' (JArr [JNum 1]) = Inr ''[1]''"
  by code_simp

text \<open>
  \<^bold>\<open>C9\<close>, as amended. When \<open>args.wrap\<close> and \<open>args.unwrap\<close> are both non-empty strings,
  \<open>run\<close> throws \<open>map cannot use both --wrap and --unwrap\<close> whatever the input is, also
  when the first pull of the input would throw: no item is consumed. In every other case
  \<open>run\<close> itself raises no such error: its result is that error only if the input or a
  property read of the runtime threw that very error.
\<close>

theorem run_wrap_and_unwrap:
  "(arg_wrap args = JStr w \<and> w \<noteq> [] \<and> arg_unwrap args = JStr u \<and> u \<noteq> [] \<longrightarrow>
      run h args input = Inl (Error ''map cannot use both --wrap and --unwrap''))
   \<and> (\<not> (\<exists>w u. arg_wrap args = JStr w \<and> w \<noteq> [] \<and> arg_unwrap args = JStr u \<and> u \<noteq> [])
        \<and> Inl (Error ''map cannot use both --wrap and --unwrap'') \<notin> set input
        \<and> \<not> host_throws h (Error ''map cannot use both --wrap and --unwrap'') \<longrightarrow>
      run h args input \<noteq> Inl (Error ''map cannot use both --wrap and --unwrap''))"
proof (intro conjI impI)
  assume "arg_wrap args = JStr w \<and> w \<noteq> [] \<and> arg_unwrap args = JStr u \<and> u \<noteq> []"
  then have "given (string_arg (arg_wrap args))" "given (string_arg (arg_unwrap args))"
    by (simp_all add: given_string_arg)
  then show "run h args input = Inl (Error ''map cannot use both --wrap and --unwrap'')"
    by (rule run_conflict)
next
  assume a: "\<not> (\<exists>w u. arg_wrap args = JStr w \<and> w \<noteq> [] \<and> arg_unwrap args = JStr u \<and> u \<noteq> [])
        \<and> Inl (Error ''map cannot use both --wrap and --unwrap'') \<notin> set input
        \<and> \<not> host_throws h (Error ''map cannot use both --wrap and --unwrap'')"
  then have n: "\<not> (given (string_arg (arg_wrap args)) \<and> given (string_arg (arg_unwrap args)))"
    by (auto simp: given_string_arg)
  show "run h args input \<noteq> Inl (Error ''map cannot use both --wrap and --unwrap'')"
  proof
    assume "run h args input = Inl (Error ''map cannot use both --wrap and --unwrap'')"
    from run_error [OF n this] a show False by blast
  qed
qed

theorem run_wrap_and_unwrap_witness:
  "run object_prototype \<lparr>arg_wrap = JStr ''a'', arg_unwrap = JStr ''b'', arg_rest = None\<rparr> [Inl TypeError]
     = Inl (Error ''map cannot use both --wrap and --unwrap'')
   \<and> run object_prototype \<lparr>arg_wrap = JStr ''item'', arg_unwrap = JUndefined, arg_rest = None\<rparr>
         [Inr (JNum 1), Inr (JNum 2)] \<noteq> Inl (Error ''map cannot use both --wrap and --unwrap'')"
proof -
  have nt: "\<not> host_throws object_prototype (Error ''map cannot use both --wrap and --unwrap'')"
    using object_prototype_throws by blast
  from run_wrap_and_unwrap [where args = "\<lparr>arg_wrap = JStr ''a'', arg_unwrap = JStr ''b'', arg_rest = None\<rparr>"
      and w = "''a''" and u = "''b''" and h = object_prototype and input = "[Inl TypeError]"]
  have 1: "run object_prototype \<lparr>arg_wrap = JStr ''a'', arg_unwrap = JStr ''b'', arg_rest = None\<rparr>
      [Inl TypeError] = Inl (Error ''map cannot use both --wrap and --unwrap'')"
    by simp
  from run_wrap_and_unwrap [where args = "\<lparr>arg_wrap = JStr ''item'', arg_unwrap = JUndefined, arg_rest = None\<rparr>"
      and h = object_prototype and input = "[Inr (JNum 1), Inr (JNum 2)]"] nt
  have 2: "run object_prototype \<lparr>arg_wrap = JStr ''item'', arg_unwrap = JUndefined, arg_rest = None\<rparr>
      [Inr (JNum 1), Inr (JNum 2)] \<noteq> Inl (Error ''map cannot use both --wrap and --unwrap'')"
    by simp
  from 1 2 show ?thesis by blast
qed

text \<open>
  The claim as stated fails for an empty string: with \<open>--wrap ""\<close> and \<open>--unwrap x\<close> both
  options are strings, and \<open>run\<close> unwraps instead of throwing, since the source tests the
  two strings for truthiness.
\<close>

theorem run_empty_wrap_counterexample:
  "run object_prototype \<lparr>arg_wrap = JStr [], arg_unwrap = JStr ''x'', arg_rest = None\<rparr>
     [Inr (JObj [(''x'', JNum 1)])] = Inr [JNum 1]"
  by code_simp

text \<open>
  \<^bold>\<open>C10\<close>. The claim says that an earlier assignment of the same invocation never changes
  what a placeholder resolves to. Without \<open>--wrap\<close>, on an item that is a plain object,
  \<open>cur\<close> is the item itself, so \<open>id=X\<close> overwrites the item's \<open>id\<close> before
  \<open>y={{id}}\<close> is rendered: \<open>y\<close> becomes \<open>X\<close>, not \<open>123\<close>. With \<open>--wrap\<close> the
  assignments go to the new wrapper object and \<open>y\<close> is \<open>123\<close>, as the claim says.
\<close>

theorem run_later_assignment_reads_earlier:
  "run h \<lparr>arg_wrap = JUndefined, arg_unwrap = JUndefined, arg_rest = Some [''id=X'', ''y={{id}}'']\<rparr>
     [Inr (JObj [(''id'', JNum 123)])]
     = Inr [JObj [(''id'', JStr ''X''), (''y'', JStr ''X'')]]
   \<and> run h \<lparr>arg_wrap = JStr ''w'', arg_unwrap = JUndefined, arg_rest = Some [''id=X'', ''y={{id}}'']\<rparr>
     [Inr (JObj [(''id'', JNum 123)])]
     = Inr [JObj [(''w'', JObj [(''id'', JNum 123)]), (''id'', JStr ''X''), (''y'', JStr ''123'')]]"
  by code_simp

end
